theory Spec2Isabelle
  imports Main "HOL-Library.Multiset" "HOL-Library.Sublist"
begin

section \<open>Strings, exceptions, Python sets\<close>

text \<open>
  A Python \<open>str\<close> is a sequence of Unicode code points, and \<open>len\<close> counts code
  points; a string is therefore a list of code points, each a natural number.
\<close>

type_synonym ustring = "nat list"

text \<open>
  The exceptions that reach the modelled code. \<open>SegmentationError\<close> stands for
  whatever the segmenter raises, \<open>OperationalError\<close> and \<open>DataError\<close> for what
  the database driver raises, \<open>FileError\<close> for a file that cannot be opened or parsed;
  \<open>AttributeError\<close> and \<open>IndexError\<close> are Python's own.
\<close>

datatype exn =
  SegmentationError | OperationalError | DataError | FileError | AttributeError | IndexError

text \<open>
  A Python \<open>set\<close> is modelled by the list of its members without repetition.
  \<open>s.add(x)\<close> is \<open>set_add x s\<close>. Python does not fix the order in which a set is
  iterated, so every function that iterates a set takes the iteration as a parameter
  \<open>iter\<close>; \<open>iterates_sets iter\<close> says that \<open>iter\<close> yields each member exactly once.
\<close>

definition set_add :: "'a \<Rightarrow> 'a list \<Rightarrow> 'a list" where
  "set_add x s = (if x \<in> set s then s else s @ [x])"

definition iterates_sets :: "(ustring list \<Rightarrow> ustring list) \<Rightarrow> bool" where
  "iterates_sets iter = (\<forall>s. mset (iter s) = mset s)"

section \<open>tokenizer.py\<close>

subsection \<open>The width conversions of jaconv\<close>

text \<open>
  Modelled from the spec: \<open>jaconv.z2h\<close> and \<open>jaconv.h2z\<close> are functions of the
  jaconv library, which is not part of the repository. The spec (4.1) describes the two
  passes: full-width ASCII letters, digits and symbols are folded to half-width with kana
  untouched, then half-width katakana is converted to full-width with ASCII and digits
  untouched. \<open>z2h\<close> with \<open>kana=False, ascii=True, digit=True\<close> translates character
  by character: U+FF01..U+FF5E move down by 0xFEE0 and the ideographic space U+3000
  becomes U+0020. \<open>h2z\<close> with \<open>kana=True, ascii=False, digit=False\<close> first joins a
  half-width kana and a following half-width (semi-)voiced mark into the one full-width
  voiced kana, then translates the remaining half-width kana and punctuation character
  by character.
\<close>

definition z2h_char :: "nat \<Rightarrow> nat" where
  "z2h_char c =
     (if 0xFF01 \<le> c \<and> c \<le> 0xFF5E then c - 0xFEE0
      else if c = 0x3000 then 0x20
      else c)"

definition z2h :: "ustring \<Rightarrow> ustring" where
  "z2h text = map z2h_char text"

definition H2Z_K :: "(nat \<times> nat) list" where
  "H2Z_K =
    [(0xFF67, 0x30A1), (0xFF71, 0x30A2), (0xFF68, 0x30A3), (0xFF72, 0x30A4),
     (0xFF69, 0x30A5), (0xFF73, 0x30A6), (0xFF6A, 0x30A7), (0xFF74, 0x30A8),
     (0xFF6B, 0x30A9), (0xFF75, 0x30AA), (0xFF76, 0x30AB), (0xFF77, 0x30AD),
     (0xFF78, 0x30AF), (0xFF79, 0x30B1), (0xFF7A, 0x30B3), (0xFF7B, 0x30B5),
     (0xFF7C, 0x30B7), (0xFF7D, 0x30B9), (0xFF7E, 0x30BB), (0xFF7F, 0x30BD),
     (0xFF80, 0x30BF), (0xFF81, 0x30C1), (0xFF6F, 0x30C3), (0xFF82, 0x30C4),
     (0xFF83, 0x30C6), (0xFF84, 0x30C8), (0xFF85, 0x30CA), (0xFF86, 0x30CB),
     (0xFF87, 0x30CC), (0xFF88, 0x30CD), (0xFF89, 0x30CE), (0xFF8A, 0x30CF),
     (0xFF8B, 0x30D2), (0xFF8C, 0x30D5), (0xFF8D, 0x30D8), (0xFF8E, 0x30DB),
     (0xFF8F, 0x30DE), (0xFF90, 0x30DF), (0xFF91, 0x30E0), (0xFF92, 0x30E1),
     (0xFF93, 0x30E2), (0xFF6C, 0x30E3), (0xFF94, 0x30E4), (0xFF6D, 0x30E5),
     (0xFF95, 0x30E6), (0xFF6E, 0x30E7), (0xFF96, 0x30E8), (0xFF97, 0x30E9),
     (0xFF98, 0x30EA), (0xFF99, 0x30EB), (0xFF9A, 0x30EC), (0xFF9B, 0x30ED),
     (0xFF9C, 0x30EF), (0xFF66, 0x30F2), (0xFF9D, 0x30F3), (0xFF70, 0x30FC),
     (0xFF65, 0x30FB), (0xFF62, 0x300C), (0xFF63, 0x300D), (0xFF61, 0x3002),
     (0xFF64, 0x3001)]"

definition H2Z_DAKUTEN :: "((nat \<times> nat) \<times> nat) list" where
  "H2Z_DAKUTEN =
    [((0xFF76, 0xFF9E), 0x30AC), ((0xFF77, 0xFF9E), 0x30AE), ((0xFF78, 0xFF9E), 0x30B0),
     ((0xFF79, 0xFF9E), 0x30B2), ((0xFF7A, 0xFF9E), 0x30B4), ((0xFF7B, 0xFF9E), 0x30B6),
     ((0xFF7C, 0xFF9E), 0x30B8), ((0xFF7D, 0xFF9E), 0x30BA), ((0xFF7E, 0xFF9E), 0x30BC),
     ((0xFF7F, 0xFF9E), 0x30BE), ((0xFF80, 0xFF9E), 0x30C0), ((0xFF81, 0xFF9E), 0x30C2),
     ((0xFF82, 0xFF9E), 0x30C5), ((0xFF83, 0xFF9E), 0x30C7), ((0xFF84, 0xFF9E), 0x30C9),
     ((0xFF8A, 0xFF9E), 0x30D0), ((0xFF8B, 0xFF9E), 0x30D3), ((0xFF8C, 0xFF9E), 0x30D6),
     ((0xFF8D, 0xFF9E), 0x30D9), ((0xFF8E, 0xFF9E), 0x30DC), ((0xFF8A, 0xFF9F), 0x30D1),
     ((0xFF8B, 0xFF9F), 0x30D4), ((0xFF8C, 0xFF9F), 0x30D7), ((0xFF8D, 0xFF9F), 0x30DA),
     ((0xFF8E, 0xFF9F), 0x30DD), ((0xFF73, 0xFF9E), 0x30F4), ((0xFF9C, 0xFF9E), 0x30F7),
     ((0xFF66, 0xFF9E), 0x30FA)]"

fun conv_dakuten :: "ustring \<Rightarrow> ustring" where
  "conv_dakuten (a # b # rest) =
     (case map_of H2Z_DAKUTEN (a, b) of
        Some v \<Rightarrow> v # conv_dakuten rest
      | None \<Rightarrow> a # conv_dakuten (b # rest))"
| "conv_dakuten text = text"

definition h2z_char :: "nat \<Rightarrow> nat" where
  "h2z_char c = (case map_of H2Z_K c of Some v \<Rightarrow> v | None \<Rightarrow> c)"

definition h2z :: "ustring \<Rightarrow> ustring" where
  "h2z text = map h2z_char (conv_dakuten text)"

subsection \<open>JapaneseTokenizer\<close>

text \<open>
  \<open>normalize\<close> (lines 23-38); the module-level \<open>normalize_text\<close> only calls it, and
  the model uses that name for both.
\<close>

definition normalize_text :: "ustring \<Rightarrow> ustring" where
  "normalize_text text = h2z (z2h text)"

text \<open>
  One node of the segmenter's output: its surface string and the features that the code
  reads. \<open>feature_lemma\<close> is \<open>None\<close> where the dictionary gives Python's \<open>None\<close>;
  \<open>feature_kana\<close> is \<open>None\<close> where the feature tuple has no attribute \<open>kana\<close>, and
  \<open>Some v\<close> where it has one with value \<open>v\<close>.
\<close>

record word_node =
  surface :: ustring
  feature_lemma :: "ustring option"
  feature_pos1 :: "ustring option"
  feature_pos2 :: "ustring option"
  feature_kana :: "ustring option option"

text \<open>
  The segmenter \<open>self.tagger\<close> (fugashi) is outside the repository: it is a parameter,
  a function from the text to the nodes, or to the exception it raises.
\<close>

type_synonym tagger = "ustring \<Rightarrow> exn + word_node list"

definition tokenize :: "tagger \<Rightarrow> ustring \<Rightarrow> ustring list" where
  "tokenize tagger text0 =
     (let text = normalize_text text0 in
      case tagger text of
        Inr ws \<Rightarrow> map surface ws
      | Inl e \<Rightarrow> [])"

text \<open>\<open>if lemma and lemma != '*'\<close>: the lemma is neither \<open>None\<close>, nor empty, nor the marker.\<close>

definition usable_lemma :: "ustring option \<Rightarrow> bool" where
  "usable_lemma lm = (case lm of None \<Rightarrow> False | Some l \<Rightarrow> l \<noteq> [] \<and> l \<noteq> [0x2A])"

fun get_lemmas_loop :: "word_node list \<Rightarrow> ustring list \<Rightarrow> ustring list" where
  "get_lemmas_loop [] lemmas = lemmas"
| "get_lemmas_loop (word # rest) lemmas =
     (case feature_lemma word of
        Some l \<Rightarrow>
          if usable_lemma (Some l) then get_lemmas_loop rest (set_add l lemmas)
          else get_lemmas_loop rest (set_add (surface word) lemmas)
      | None \<Rightarrow> get_lemmas_loop rest (set_add (surface word) lemmas))"

definition get_lemmas :: "tagger \<Rightarrow> ustring \<Rightarrow> ustring list" where
  "get_lemmas tagger text0 =
     (let text = normalize_text text0 in
      case tagger text of
        Inr ws \<Rightarrow> get_lemmas_loop ws []
      | Inl e \<Rightarrow> [])"

fun get_lemmas_with_surface_loop :: "word_node list \<Rightarrow> ustring list \<Rightarrow> ustring list" where
  "get_lemmas_with_surface_loop [] words = words"
| "get_lemmas_with_surface_loop (word # rest) words =
     (let words1 = set_add (surface word) words in
      case feature_lemma word of
        Some l \<Rightarrow>
          if usable_lemma (Some l) then get_lemmas_with_surface_loop rest (set_add l words1)
          else get_lemmas_with_surface_loop rest words1
      | None \<Rightarrow> get_lemmas_with_surface_loop rest words1)"

definition get_lemmas_with_surface :: "tagger \<Rightarrow> ustring \<Rightarrow> ustring list" where
  "get_lemmas_with_surface tagger text0 =
     (let text = normalize_text text0 in
      case tagger text of
        Inr ws \<Rightarrow> get_lemmas_with_surface_loop ws []
      | Inl e \<Rightarrow> [])"

text \<open>
  The dictionary that \<open>analyze_word\<close> returns; \<open>None\<close> is the empty dictionary \<open>{}\<close>.
  The segmenter is called on \<open>word\<close> itself (line 128).
\<close>

record analysis =
  analysis_surface :: ustring
  analysis_lemma :: "ustring option"
  analysis_pos :: "ustring option"
  analysis_pos_detail :: "ustring option"
  analysis_reading :: "ustring option"

definition analyze_word :: "tagger \<Rightarrow> ustring \<Rightarrow> analysis option" where
  "analyze_word tagger word =
     (case tagger word of
        Inr result \<Rightarrow>
          (case result of
             first_word # _ \<Rightarrow>
               Some \<lparr> analysis_surface = surface first_word,
                      analysis_lemma =
                        (if feature_lemma first_word \<noteq> Some [0x2A]
                         then feature_lemma first_word else None),
                      analysis_pos = feature_pos1 first_word,
                      analysis_pos_detail = feature_pos2 first_word,
                      analysis_reading =
                        (case feature_kana first_word of Some v \<Rightarrow> v | None \<Rightarrow> None) \<rparr>
           | [] \<Rightarrow> None)
      | Inl e \<Rightarrow> None)"

text \<open>
  Two segmenters to run the definitions on. \<open>char_tagger\<close> cuts the text into
  one-character nodes without a lemma; \<open>failing_tagger\<close> always raises.
\<close>

definition char_node :: "nat \<Rightarrow> word_node" where
  "char_node c =
     \<lparr> surface = [c], feature_lemma = None, feature_pos1 = None, feature_pos2 = None,
       feature_kana = None \<rparr>"

definition char_tagger :: tagger where
  "char_tagger text = Inr (map char_node text)"

definition failing_tagger :: tagger where
  "failing_tagger text = Inl SegmentationError"

text \<open>
  \<open>sample_tagger\<close> segments the two texts of the spec's example the way a dictionary
  would: U+98DF U+3079 U+305F (the past form of "eat") into the stem with the lemma
  U+98DF U+3079 U+308B and the ending U+305F, and the text U+98DF U+3079 U+308B into one
  node whose lemma is its surface; any other text is cut into characters.
\<close>

definition lemma_node :: "ustring \<Rightarrow> ustring \<Rightarrow> word_node" where
  "lemma_node s l =
     \<lparr> surface = s, feature_lemma = Some l, feature_pos1 = None, feature_pos2 = None,
       feature_kana = None \<rparr>"

definition sample_tagger :: tagger where
  "sample_tagger text =
     (if text = [0x98DF, 0x3079, 0x305F]
      then Inr [lemma_node [0x98DF, 0x3079] [0x98DF, 0x3079, 0x308B], lemma_node [0x305F] [0x305F]]
      else if text = [0x98DF, 0x3079, 0x308B]
      then Inr [lemma_node [0x98DF, 0x3079, 0x308B] [0x98DF, 0x3079, 0x308B]]
      else Inr (map char_node text))"

section \<open>loader.py\<close>

text \<open>
  \<open>str.strip()\<close> removes the characters for which \<open>str.isspace\<close> holds from both
  ends.
\<close>

definition isspace :: "nat \<Rightarrow> bool" where
  "isspace c =
     ((0x09 \<le> c \<and> c \<le> 0x0D) \<or> (0x1C \<le> c \<and> c \<le> 0x20) \<or> c = 0x85 \<or> c = 0xA0
      \<or> c = 0x1680 \<or> (0x2000 \<le> c \<and> c \<le> 0x200A) \<or> c = 0x2028 \<or> c = 0x2029
      \<or> c = 0x202F \<or> c = 0x205F \<or> c = 0x3000)"

definition strip :: "ustring \<Rightarrow> ustring" where
  "strip s = rev (dropWhile isspace (rev (dropWhile isspace s)))"

text \<open>
  The loop of \<open>read_jesc_file\<close> (lines 43-66) over the rows that \<open>csv.reader\<close>
  yields, each row a list of fields. \<open>line_num\<close> counts from 1; \<open>limit\<close> is
  \<open>None\<close> or an integer, and \<open>if limit and ...\<close> treats 0 like \<open>None\<close>.
\<close>

fun read_rows ::
  "int option \<Rightarrow> int \<Rightarrow> ustring list list \<Rightarrow> (ustring \<times> ustring) list
   \<Rightarrow> (ustring \<times> ustring) list" where
  "read_rows limit line_num [] sentences = sentences"
| "read_rows limit line_num (row # rest) sentences =
     (if (case limit of None \<Rightarrow> False | Some l \<Rightarrow> l \<noteq> 0 \<and> line_num > l) then sentences
      else if length row < 3 then read_rows limit (line_num + 1) rest sentences
      else
        (let en_text = strip (row ! 1);
             ja_text = strip (row ! 2)
         in if ja_text = [] \<or> en_text = [] then read_rows limit (line_num + 1) rest sentences
            else if 0x0A \<in> set ja_text \<or> 0x09 \<in> set ja_text
                    \<or> 0x0A \<in> set en_text \<or> 0x09 \<in> set en_text
              then read_rows limit (line_num + 1) rest sentences
            else if length ja_text > 300 \<or> length en_text > 300
              then read_rows limit (line_num + 1) rest sentences
            else read_rows limit (line_num + 1) rest (sentences @ [(ja_text, en_text)])))"

text \<open>
  \<open>read_jesc_file\<close>: the file is either the rows read from it or the exception that
  opening or parsing it raises, which the function logs and raises again.
\<close>

definition read_jesc_file ::
  "exn + ustring list list \<Rightarrow> int option \<Rightarrow> exn + (ustring \<times> ustring) list" where
  "read_jesc_file csv_file limit =
     (case csv_file of
        Inr rows \<Rightarrow> Inr (read_rows limit 1 rows [])
      | Inl e \<Rightarrow> Inl e)"

text \<open>\<open>build_word_index\<close> (lines 82-106): \<open>idx\<close> is the counter of \<open>enumerate\<close>.\<close>

fun build_loop ::
  "(ustring list \<Rightarrow> ustring list) \<Rightarrow> tagger \<Rightarrow> int \<Rightarrow> (ustring \<times> ustring) list
   \<Rightarrow> (ustring \<times> int) list \<Rightarrow> (ustring \<times> int) list" where
  "build_loop iter tagger idx [] word_index = word_index"
| "build_loop iter tagger idx ((ja_text, en_text) # rest) word_index =
     (let words = get_lemmas_with_surface tagger ja_text
      in build_loop iter tagger (idx + 1) rest
           (word_index @ map (\<lambda>word. (word, idx)) (iter words)))"

definition build_word_index ::
  "(ustring list \<Rightarrow> ustring list) \<Rightarrow> tagger \<Rightarrow> (ustring \<times> ustring) list \<Rightarrow> int
   \<Rightarrow> (ustring \<times> int) list" where
  "build_word_index iter tagger sentences start_id =
     build_loop iter tagger start_id sentences []"

section \<open>scripts/rebuild\_word\_index.py\<close>

text \<open>
  The index that \<open>rebuild_word_index\<close> computes (lines 52-59) from \<open>results\<close>, the
  rows \<open>(id, japanese)\<close> selected from the table of sentences.
\<close>

fun rebuild_loop ::
  "(ustring list \<Rightarrow> ustring list) \<Rightarrow> tagger \<Rightarrow> (int \<times> ustring) list
   \<Rightarrow> (ustring \<times> int) list \<Rightarrow> (ustring \<times> int) list" where
  "rebuild_loop iter tagger [] word_index = word_index"
| "rebuild_loop iter tagger ((sentence_id, ja_text) # rest) word_index =
     (let words = get_lemmas_with_surface tagger ja_text
      in rebuild_loop iter tagger rest
           (word_index @ map (\<lambda>word. (word, sentence_id)) (iter words)))"

definition rebuild_word_index ::
  "(ustring list \<Rightarrow> ustring list) \<Rightarrow> tagger \<Rightarrow> (int \<times> ustring) list
   \<Rightarrow> (ustring \<times> int) list" where
  "rebuild_word_index iter tagger results = rebuild_loop iter tagger results []"

section \<open>database.py\<close>

text \<open>
  The store behind \<open>Database\<close>: the rows \<open>(id, japanese, english)\<close> of the table
  \<open>sentences\<close>, the rows \<open>(word, sentence_id)\<close> of the table \<open>word_index\<close>, and
  whether the backend answers (\<open>available\<close>); when it does not, \<open>session.execute\<close> raises.
\<close>

record database =
  sentences_table :: "(int \<times> ustring \<times> ustring) list"
  word_index_table :: "(ustring \<times> int) list"
  available :: bool

text \<open>
  The SQL pattern match \<open>LIKE\<close>: U+0025 matches any sequence of characters, U+005F
  any one character, and U+005C makes the next pattern character literal.
\<close>

fun like_match :: "ustring \<Rightarrow> ustring \<Rightarrow> bool" where
  "like_match [] s = (s = [])"
| "like_match (p # ps) [] = (p = 0x25 \<and> like_match ps [])"
| "like_match (p # ps) (c # cs) =
     (if p = 0x25 then like_match ps (c # cs) \<or> like_match (p # ps) cs
      else if p = 0x5F then like_match ps cs
      else if p = 0x5C then (case ps of [] \<Rightarrow> False | q # qs \<Rightarrow> c = q \<and> like_match qs cs)
      else c = p \<and> like_match ps cs)"

text \<open>
  \<open>session.execute(stmt).all()\<close> for the two joins: the pairs of the sentences joined
  with the index entries whose word satisfies \<open>matches\<close>, cut to \<open>limit\<close> rows. The
  database rejects a negative \<open>LIMIT\<close>.
\<close>

definition execute_join ::
  "database \<Rightarrow> (ustring \<Rightarrow> bool) \<Rightarrow> int \<Rightarrow> exn + (ustring \<times> ustring) list" where
  "execute_join db matches limit =
     (if \<not> available db then Inl OperationalError
      else if limit < 0 then Inl DataError
      else Inr (take (nat limit)
             [(jp, en). (sid, jp, en) \<leftarrow> sentences_table db, (w, wsid) \<leftarrow> word_index_table db,
                        sid = wsid \<and> matches w]))"

text \<open>
  The logger. \<open>logging.Logger\<close> has a method \<open>error\<close> and no attribute \<open>erorr\<close>:
  evaluating \<open>logger.erorr\<close> raises \<open>AttributeError\<close>.
\<close>

definition logger_error :: "exn + unit" where
  "logger_error = Inr ()"

definition logger_erorr :: "exn + unit" where
  "logger_erorr = Inl AttributeError"

definition search_by_word ::
  "database \<Rightarrow> ustring \<Rightarrow> int \<Rightarrow> exn + (ustring \<times> ustring) list" where
  "search_by_word db word limit =
     (case execute_join db (\<lambda>w. w = word) limit of
        Inr results \<Rightarrow> Inr [(jp, en). (jp, en) \<leftarrow> results]
      | Inl e \<Rightarrow>
          (case logger_erorr of
             Inl e' \<Rightarrow> Inl e'
           | Inr u \<Rightarrow> Inr []))"

definition search_by_partial_word ::
  "database \<Rightarrow> ustring \<Rightarrow> int \<Rightarrow> exn + (ustring \<times> ustring) list" where
  "search_by_partial_word db word limit =
     (case execute_join db (like_match (word @ [0x25])) limit of
        Inr results \<Rightarrow> Inr [(jp, en). (jp, en) \<leftarrow> results]
      | Inl e \<Rightarrow>
          (case logger_erorr of
             Inl e' \<Rightarrow> Inl e'
           | Inr u \<Rightarrow> Inr []))"

text \<open>
  \<open>ORDER BY random() LIMIT 1\<close> and \<open>.first()\<close>: \<open>pick\<close> is the random choice, and
  the result is \<open>None\<close> when the table is empty.
\<close>

definition execute_random :: "database \<Rightarrow> nat \<Rightarrow> exn + (ustring \<times> ustring) option" where
  "execute_random db pick =
     (if \<not> available db then Inl OperationalError
      else Inr (case sentences_table db of
                  [] \<Rightarrow> None
                | r # rs \<Rightarrow> Some (snd (sentences_table db ! (pick mod length (sentences_table db))))))"

definition get_random_sentence :: "database \<Rightarrow> nat \<Rightarrow> ustring option \<times> ustring option" where
  "get_random_sentence db pick =
     (case execute_random db pick of
        Inr result \<Rightarrow>
          (case result of
             Some (jp, en) \<Rightarrow> (Some jp, Some en)
           | None \<Rightarrow> (None, None))
      | Inl e \<Rightarrow>
          (case logger_error of
             Inl e' \<Rightarrow> (None, None)
           | Inr u \<Rightarrow> (None, None)))"

definition execute_count :: "database \<Rightarrow> exn + int" where
  "execute_count db =
     (if \<not> available db then Inl OperationalError else Inr (int (length (sentences_table db))))"

definition get_sentence_count :: "database \<Rightarrow> int" where
  "get_sentence_count db =
     (case execute_count db of
        Inr count0 \<Rightarrow> (if count0 \<noteq> 0 then count0 else 0)
      | Inl e \<Rightarrow> 0)"

section \<open>bot.py\<close>

text \<open>
  The search of \<open>sentence_command\<close> (lines 76-97). The calls it makes to the store and
  to the tokenizer are recorded in order, next to the value of \<open>results\<close> or the
  exception that leaves the command.
\<close>

datatype call = SearchByWord ustring int | SearchByPartialWord ustring int | GetLemmas ustring

type_synonym outcome = "call list \<times> (exn + (ustring \<times> ustring) list)"

definition exact_step :: "database \<Rightarrow> ustring \<Rightarrow> int \<Rightarrow> outcome" where
  "exact_step db normalized_word limit =
     ([SearchByWord normalized_word limit], search_by_word db normalized_word limit)"

definition partial_step :: "database \<Rightarrow> ustring \<Rightarrow> int \<Rightarrow> outcome \<Rightarrow> outcome" where
  "partial_step db normalized_word limit st =
     (case st of
        (log, Inr []) \<Rightarrow>
          (log @ [SearchByPartialWord normalized_word limit],
           search_by_partial_word db normalized_word limit)
      | _ \<Rightarrow> st)"

definition lemma_step ::
  "(ustring list \<Rightarrow> ustring list) \<Rightarrow> tagger \<Rightarrow> database \<Rightarrow> ustring \<Rightarrow> int \<Rightarrow> outcome
   \<Rightarrow> outcome" where
  "lemma_step iter tagger db normalized_word limit st =
     (case st of
        (log, Inr []) \<Rightarrow>
          (let lemmas = get_lemmas tagger normalized_word;
               log' = log @ [GetLemmas normalized_word]
           in if lemmas \<noteq> [] then
                (case iter lemmas of
                   lemma0 # _ \<Rightarrow>
                     (log' @ [SearchByWord lemma0 limit], search_by_word db lemma0 limit)
                 | [] \<Rightarrow> (log', Inl IndexError))
              else (log', Inr []))
      | _ \<Rightarrow> st)"

definition sentence_command ::
  "(ustring list \<Rightarrow> ustring list) \<Rightarrow> tagger \<Rightarrow> database \<Rightarrow> ustring \<Rightarrow> int \<Rightarrow> outcome" where
  "sentence_command iter tagger db word limit0 =
     (let limit = max 1 (min limit0 10);
          normalized_word = normalize_text word
      in lemma_step iter tagger db normalized_word limit
           (partial_step db normalized_word limit
              (exact_step db normalized_word limit)))"

text \<open>
  Two stores to run the definitions on: \<open>sample_db\<close> holds the sentence of the spec's
  example with two of its index entries, and \<open>down_db\<close> is a backend that does not
  answer.
\<close>

definition sample_db :: database where
  "sample_db =
     \<lparr> sentences_table =
         [(1, [0x79C1, 0x306F, 0x5BFF, 0x53F8, 0x3092, 0x98DF, 0x3079, 0x307E, 0x3059],
              [0x49, 0x20, 0x65, 0x61, 0x74, 0x20, 0x73, 0x75, 0x73, 0x68, 0x69])],
       word_index_table =
         [([0x5BFF, 0x53F8], 1), ([0x98DF, 0x3079, 0x308B], 1)],
       available = True \<rparr>"

definition down_db :: database where
  "down_db = \<lparr> sentences_table = [], word_index_table = [], available = False \<rparr>"


section \<open>Auxiliary notions for the proofs\<close>

text \<open>
  \<open>zdom\<close> is the set of characters that \<open>z2h\<close> changes; a character is stable when
  neither pass changes it.
\<close>

definition zdom :: "nat \<Rightarrow> bool" where
  "zdom c = ((0xFF01 \<le> c \<and> c \<le> 0xFF5E) \<or> c = 0x3000)"

definition stable_char :: "nat \<Rightarrow> bool" where
  "stable_char c = (\<not> zdom c \<and> map_of H2Z_K c = None)"

text \<open>
  What one node contributes to \<open>get_lemmas\<close> (one string) and to
  \<open>get_lemmas_with_surface\<close> (one or two strings).
\<close>

definition node_lemma :: "word_node \<Rightarrow> ustring" where
  "node_lemma w =
     (case feature_lemma w of
        Some l \<Rightarrow> if usable_lemma (Some l) then l else surface w
      | None \<Rightarrow> surface w)"

definition node_words :: "word_node \<Rightarrow> ustring set" where
  "node_words w =
     (case feature_lemma w of
        Some l \<Rightarrow> if usable_lemma (Some l) then {surface w, l} else {surface w}
      | None \<Rightarrow> {surface w})"

text \<open>
  The entries that the loop of \<open>build_word_index\<close> appends, sentence by sentence.
\<close>

fun entries_from ::
  "(ustring list \<Rightarrow> ustring list) \<Rightarrow> tagger \<Rightarrow> int \<Rightarrow> (ustring \<times> ustring) list
   \<Rightarrow> (ustring \<times> int) list" where
  "entries_from iter tagger idx [] = []"
| "entries_from iter tagger idx (s # rest) =
     map (\<lambda>word. (word, idx)) (iter (get_lemmas_with_surface tagger (fst s)))
       @ entries_from iter tagger (idx + 1) rest"


text \<open>
  The tests that the loop of \<open>read_jesc_file\<close> makes on one row (lines 47-64), the
  pair it appends (line 66), and the rows that it reaches before \<open>break\<close> (line 44).
\<close>

definition row_skipped :: "ustring list \<Rightarrow> bool" where
  "row_skipped row =
     (length row < 3
      \<or> strip (row ! 2) = [] \<or> strip (row ! 1) = []
      \<or> 0x0A \<in> set (strip (row ! 2)) \<or> 0x09 \<in> set (strip (row ! 2))
      \<or> 0x0A \<in> set (strip (row ! 1)) \<or> 0x09 \<in> set (strip (row ! 1))
      \<or> length (strip (row ! 2)) > 300 \<or> length (strip (row ! 1)) > 300)"

definition row_pair :: "ustring list \<Rightarrow> ustring \<times> ustring" where
  "row_pair row = (strip (row ! 2), strip (row ! 1))"

definition rows_read :: "int option \<Rightarrow> ustring list list \<Rightarrow> ustring list list" where
  "rows_read limit rows =
     (case limit of
        None \<Rightarrow> rows
      | Some l \<Rightarrow> if l = 0 then rows else take (nat l) rows)"

section \<open>The normalizer\<close>

lemma z2h_char_not_zdom: "\<not> zdom (z2h_char c)"
  by (auto simp: zdom_def z2h_char_def)

lemma z2h_char_id: "\<not> zdom c \<Longrightarrow> z2h_char c = c"
  by (auto simp: zdom_def z2h_char_def)

lemma H2Z_K_ranges:
  "list_all (\<lambda>(k, v). 0xFF61 \<le> k \<and> k \<le> 0xFF9D \<and> 0x3001 \<le> v \<and> v \<le> 0x30FC) H2Z_K"
  by (simp add: H2Z_K_def)

lemma H2Z_K_Some:
  assumes "map_of H2Z_K c = Some v"
  shows "0xFF61 \<le> c \<and> c \<le> 0xFF9D \<and> 0x3001 \<le> v \<and> v \<le> 0x30FC"
proof -
  from assms have "(c, v) \<in> set H2Z_K" by (rule map_of_SomeD)
  with H2Z_K_ranges show ?thesis by (auto simp: list_all_iff)
qed

lemma full_kana_stable:
  assumes "0x3001 \<le> v" and "v \<le> 0x30FC"
  shows "stable_char v"
proof -
  have "\<not> zdom v" using assms by (simp add: zdom_def)
  moreover have "map_of H2Z_K v = None"
  proof (cases "map_of H2Z_K v")
    case (Some w)
    from H2Z_K_Some [OF Some] assms show ?thesis by simp
  qed simp
  ultimately show ?thesis by (simp add: stable_char_def)
qed

lemma H2Z_DAKUTEN_entries:
  "list_all (\<lambda>((a, b), v). 0xFF61 \<le> a \<and> a \<le> 0xFF9D \<and> 0x3001 \<le> v \<and> v \<le> 0x30FC) H2Z_DAKUTEN"
  by (simp add: H2Z_DAKUTEN_def)

lemma H2Z_DAKUTEN_keys:
  "list_all (\<lambda>((a, b), v). map_of H2Z_K a \<noteq> None) H2Z_DAKUTEN"
  by (simp add: H2Z_DAKUTEN_def H2Z_K_def)

lemma dakuten_Some:
  assumes "map_of H2Z_DAKUTEN (a, b) = Some v"
  shows "map_of H2Z_K a \<noteq> None \<and> stable_char v"
proof -
  from assms have mem: "((a, b), v) \<in> set H2Z_DAKUTEN" by (rule map_of_SomeD)
  with H2Z_DAKUTEN_keys have "map_of H2Z_K a \<noteq> None" by (auto simp: list_all_iff)
  moreover from mem H2Z_DAKUTEN_entries have "0x3001 \<le> v \<and> v \<le> 0x30FC"
    by (auto simp: list_all_iff)
  ultimately show ?thesis by (simp add: full_kana_stable)
qed

lemma dakuten_stable_None: "stable_char a \<Longrightarrow> map_of H2Z_DAKUTEN (a, b) = None"
  using dakuten_Some [of a b] by (cases "map_of H2Z_DAKUTEN (a, b)") (auto simp: stable_char_def)

lemma h2z_char_stable: "\<not> zdom c \<Longrightarrow> stable_char (h2z_char c)"
proof (cases "map_of H2Z_K c")
  case None
  assume "\<not> zdom c"
  with None show ?thesis by (simp add: h2z_char_def stable_char_def)
next
  case (Some v)
  from H2Z_K_Some [OF Some] have "stable_char v" by (simp add: full_kana_stable)
  with Some show ?thesis by (simp add: h2z_char_def)
qed

lemma conv_dakuten_not_zdom:
  "list_all (\<lambda>c. \<not> zdom c) t \<Longrightarrow> list_all (\<lambda>c. \<not> zdom c) (conv_dakuten t)"
proof (induction t rule: conv_dakuten.induct)
  case (1 a b rest)
  then show ?case
    by (auto split: option.splits dest: dakuten_Some simp: stable_char_def)
qed simp_all

lemma conv_dakuten_stable: "list_all stable_char t \<Longrightarrow> conv_dakuten t = t"
proof (induction t rule: conv_dakuten.induct)
  case (1 a b rest)
  then show ?case by (simp add: dakuten_stable_None)
qed simp_all

lemma h2z_char_id: "stable_char c \<Longrightarrow> h2z_char c = c"
  by (simp add: h2z_char_def stable_char_def)

lemma normalize_text_stable: "list_all stable_char (normalize_text x)"
proof -
  have "list_all (\<lambda>c. \<not> zdom c) (z2h x)"
    by (simp add: z2h_def list_all_iff z2h_char_not_zdom)
  then have "list_all (\<lambda>c. \<not> zdom c) (conv_dakuten (z2h x))"
    by (rule conv_dakuten_not_zdom)
  then show ?thesis
    by (simp add: normalize_text_def h2z_def list_all_iff h2z_char_stable)
qed

lemma normalize_text_fixed: "list_all stable_char t \<Longrightarrow> normalize_text t = t"
proof -
  assume st: "list_all stable_char t"
  then have "z2h t = t"
    by (simp add: z2h_def list_all_iff stable_char_def z2h_char_id map_idI)
  moreover from st have "conv_dakuten t = t" by (rule conv_dakuten_stable)
  moreover from st have "map h2z_char t = t"
    by (simp add: list_all_iff h2z_char_id map_idI)
  ultimately show ?thesis by (simp add: normalize_text_def h2z_def)
qed

lemma normalize_text_idem: "normalize_text (normalize_text x) = normalize_text x"
  using normalize_text_stable by (rule normalize_text_fixed)

text \<open>
  Claim C3: the normalizer is idempotent, \<open>normalize(normalize(x)) = normalize(x)\<close>
  for every string \<open>x\<close>; it is a total function on strings, and it maps the empty
  string to the empty string.
\<close>

theorem normalize_idempotent:
  "normalize_text (normalize_text x) = normalize_text x \<and> normalize_text [] = []"
proof
  show "normalize_text (normalize_text x) = normalize_text x"
    by (rule normalize_text_idem)
  show "normalize_text [] = []"
    by (simp add: normalize_text_def h2z_def z2h_def)
qed

section \<open>The extracted sets\<close>

lemma set_set_add: "set (set_add x s) = insert x (set s)"
  by (auto simp: set_add_def)

lemma distinct_set_add: "distinct s \<Longrightarrow> distinct (set_add x s)"
  by (simp add: set_add_def)

lemma node_lemma_in_words: "node_lemma w \<in> node_words w"
  by (simp add: node_lemma_def node_words_def split: option.splits)

lemma surface_in_words: "surface w \<in> node_words w"
  by (simp add: node_words_def split: option.splits)

lemma distinct_get_lemmas_with_surface_loop:
  "distinct words \<Longrightarrow> distinct (get_lemmas_with_surface_loop ws words)"
  by (induction ws arbitrary: words) (simp_all add: Let_def distinct_set_add split: option.splits)

lemma set_get_lemmas_with_surface_loop:
  "set (get_lemmas_with_surface_loop ws words) = set words \<union> (\<Union>w \<in> set ws. node_words w)"
proof (induction ws arbitrary: words)
  case Nil
  then show ?case by simp
next
  case (Cons w ws)
  show ?case
  proof (cases "feature_lemma w")
    case None
    then show ?thesis by (auto simp: Let_def Cons.IH set_set_add node_words_def)
  next
    case (Some l)
    then show ?thesis by (auto simp: Let_def Cons.IH set_set_add node_words_def)
  qed
qed

lemma set_get_lemmas_loop:
  "set (get_lemmas_loop ws acc) = set acc \<union> node_lemma ` set ws"
proof (induction ws arbitrary: acc)
  case Nil
  then show ?case by simp
next
  case (Cons w ws)
  show ?case
  proof (cases "feature_lemma w")
    case None
    then show ?thesis by (auto simp: Cons.IH set_set_add node_lemma_def)
  next
    case (Some l)
    then show ?thesis by (auto simp: Cons.IH set_set_add node_lemma_def)
  qed
qed

lemma distinct_get_lemmas_with_surface: "distinct (get_lemmas_with_surface tagger t)"
  by (simp add: get_lemmas_with_surface_def Let_def distinct_get_lemmas_with_surface_loop
      split: sum.splits)

text \<open>
  Claim C4: for every input text and every segmenter, each lemma that \<open>get_lemmas\<close>
  returns and each surface token that \<open>tokenize\<close> returns is a member of the set that
  \<open>get_lemmas_with_surface\<close> returns.
\<close>

theorem lemmas_with_surface_superset:
  "set (get_lemmas tagger t) \<union> set (tokenize tagger t)
     \<subseteq> set (get_lemmas_with_surface tagger t)"
proof (cases "tagger (normalize_text t)")
  case (Inl e)
  then show ?thesis
    by (simp add: get_lemmas_def tokenize_def get_lemmas_with_surface_def)
next
  case (Inr ws)
  have "node_lemma ` set ws \<subseteq> (\<Union>w \<in> set ws. node_words w)"
    using node_lemma_in_words by blast
  moreover have "surface ` set ws \<subseteq> (\<Union>w \<in> set ws. node_words w)"
    using surface_in_words by blast
  ultimately show ?thesis using Inr
    by (simp add: get_lemmas_def tokenize_def get_lemmas_with_surface_def
        set_get_lemmas_loop set_get_lemmas_with_surface_loop)
qed

lemma iterates_sets_set: "iterates_sets iter \<Longrightarrow> set (iter s) = set s"
  by (metis iterates_sets_def set_mset_mset)

lemma iterates_sets_distinct: "iterates_sets iter \<Longrightarrow> distinct (iter s) = distinct s"
  by (metis iterates_sets_def mset_eq_imp_distinct_iff)

lemma iterates_sets_length: "iterates_sets iter \<Longrightarrow> length (iter s) = length s"
  by (metis iterates_sets_def size_mset)

lemma build_loop_entries:
  "build_loop iter tagger idx ss acc = acc @ entries_from iter tagger idx ss"
  by (induction ss arbitrary: idx acc) (auto simp: Let_def)

lemma set_entries_from:
  "iterates_sets iter \<Longrightarrow>
   set (entries_from iter tagger idx ss) =
     {(w, idx + int i) | w i. i < length ss \<and> w \<in> set (get_lemmas_with_surface tagger (fst (ss ! i)))}"
proof (induction ss arbitrary: idx)
  case Nil
  then show ?case by simp
next
  case (Cons s ss)
  have "{(w, idx + int i) | w i. i < length (s # ss) \<and> w \<in> set (get_lemmas_with_surface tagger (fst ((s # ss) ! i)))}
      = {(w, idx) | w. w \<in> set (get_lemmas_with_surface tagger (fst s))}
        \<union> {(w, idx + 1 + int i) | w i. i < length ss \<and> w \<in> set (get_lemmas_with_surface tagger (fst (ss ! i)))}"
    (is "?L = ?A \<union> ?B")
  proof (intro set_eqI iffI)
    fix p assume "p \<in> ?L"
    then obtain w i where p: "p = (w, idx + int i)" and i: "i < length (s # ss)"
      and w: "w \<in> set (get_lemmas_with_surface tagger (fst ((s # ss) ! i)))" by blast
    show "p \<in> ?A \<union> ?B"
    proof (cases i)
      case 0
      with p w show ?thesis by simp
    next
      case (Suc j)
      with p i w have "p = (w, idx + 1 + int j) \<and> j < length ss
          \<and> w \<in> set (get_lemmas_with_surface tagger (fst (ss ! j)))" by simp
      then show ?thesis by blast
    qed
  next
    fix p assume "p \<in> ?A \<union> ?B"
    then show "p \<in> ?L"
    proof
      assume "p \<in> ?A"
      then obtain w where "p = (w, idx + int 0)" "0 < length (s # ss)"
        "w \<in> set (get_lemmas_with_surface tagger (fst ((s # ss) ! 0)))" by auto
      then show ?thesis by blast
    next
      assume "p \<in> ?B"
      then obtain w j where "p = (w, idx + int (Suc j))" "Suc j < length (s # ss)"
        "w \<in> set (get_lemmas_with_surface tagger (fst ((s # ss) ! Suc j)))" by auto
      then show ?thesis by blast
    qed
  qed
  moreover have "set (entries_from iter tagger idx (s # ss)) = ?A \<union> ?B"
    using Cons.IH [OF Cons.prems, of "idx + 1"] Cons.prems
    by (auto simp: iterates_sets_set)
  ultimately show ?case by simp
qed

lemma snd_entries_from_ge: "p \<in> set (entries_from iter tagger idx ss) \<Longrightarrow> idx \<le> snd p"
  by (induction ss arbitrary: idx) (fastforce)+

lemma sorted_map_const: "sorted (map (\<lambda>x. (c::int)) xs)"
  by (induction xs) simp_all

lemma sorted_entries_from: "sorted (map snd (entries_from iter tagger idx ss))"
proof (induction ss arbitrary: idx)
  case Nil
  then show ?case by simp
next
  case (Cons s ss)
  have "\<forall>y \<in> set (entries_from iter tagger (idx + 1) ss). idx \<le> snd y"
    using snd_entries_from_ge [of _ iter tagger "idx + 1" ss] by fastforce
  then show ?case using Cons.IH [of "idx + 1"]
    by (auto simp: sorted_append comp_def sorted_map_const)
qed

lemma distinct_entries_from:
  "iterates_sets iter \<Longrightarrow> distinct (entries_from iter tagger idx ss)"
proof (induction ss arbitrary: idx)
  case Nil
  then show ?case by simp
next
  case (Cons s ss)
  have d: "distinct (map (\<lambda>word. (word, idx)) (iter (get_lemmas_with_surface tagger (fst s))))"
    using Cons.prems
    by (simp add: distinct_map inj_on_def iterates_sets_distinct distinct_get_lemmas_with_surface)
  have "\<And>p. p \<in> set (entries_from iter tagger (idx + 1) ss) \<Longrightarrow> snd p \<noteq> idx"
    using snd_entries_from_ge [of _ iter tagger "idx + 1" ss] by fastforce
  then have "set (map (\<lambda>word. (word, idx)) (iter (get_lemmas_with_surface tagger (fst s))))
      \<inter> set (entries_from iter tagger (idx + 1) ss) = {}" by fastforce
  with d Cons.IH [OF Cons.prems, of "idx + 1"] show ?case by simp
qed

section \<open>The index builder\<close>

lemma build_word_index_entries:
  "build_word_index iter tagger sentences start_id = entries_from iter tagger start_id sentences"
  by (simp add: build_word_index_def build_loop_entries)

lemma count_list_distinct: "distinct xs \<Longrightarrow> x \<in> set xs \<Longrightarrow> count_list xs x = 1"
  by (induction xs) auto

text \<open>
  Claim C5, as amended: the sentence ids in the emitted pairs are exactly the ids
  \<open>K + i\<close> (\<open>0 \<le> i < N\<close>) of the sentences that yield at least one word. They lie in
  \<open>{K, ..., K + N - 1}\<close>, they are all of it when every sentence yields a word, and they
  appear in the emission in nondecreasing order, so the order of the sentences is kept.
\<close>

theorem build_word_index_ids:
  assumes "iterates_sets iter"
  shows "snd ` set (build_word_index iter tagger sentences start_id)
           = {start_id + int i | i. i < length sentences
                \<and> get_lemmas_with_surface tagger (fst (sentences ! i)) \<noteq> []}
       \<and> snd ` set (build_word_index iter tagger sentences start_id)
           \<subseteq> {start_id .. start_id + int (length sentences) - 1}
       \<and> ((\<forall>s \<in> set sentences. get_lemmas_with_surface tagger (fst s) \<noteq> []) \<longrightarrow>
            snd ` set (build_word_index iter tagger sentences start_id)
              = {start_id .. start_id + int (length sentences) - 1})
       \<and> sorted (map snd (build_word_index iter tagger sentences start_id))"
proof -
  let ?out = "build_word_index iter tagger sentences start_id"
  let ?ids = "{start_id + int i | i. i < length sentences
                \<and> get_lemmas_with_surface tagger (fst (sentences ! i)) \<noteq> []}"
  have S: "set ?out = {(w, start_id + int i) | w i. i < length sentences
              \<and> w \<in> set (get_lemmas_with_surface tagger (fst (sentences ! i)))}"
    using assms by (simp add: build_word_index_entries set_entries_from)
  have A: "snd ` set ?out = ?ids"
  proof (intro set_eqI iffI)
    fix k assume "k \<in> snd ` set ?out"
    then obtain w i where "k = start_id + int i" "i < length sentences"
      "w \<in> set (get_lemmas_with_surface tagger (fst (sentences ! i)))"
      unfolding S by auto
    then show "k \<in> ?ids" by force
  next
    fix k assume "k \<in> ?ids"
    then obtain i where k: "k = start_id + int i" and i: "i < length sentences"
      and ne: "get_lemmas_with_surface tagger (fst (sentences ! i)) \<noteq> []" by blast
    from ne obtain w where "w \<in> set (get_lemmas_with_surface tagger (fst (sentences ! i)))"
      by (cases "get_lemmas_with_surface tagger (fst (sentences ! i))") auto
    with k i have "(w, k) \<in> set ?out" unfolding S by blast
    then show "k \<in> snd ` set ?out" by force
  qed
  have B: "?ids \<subseteq> {start_id .. start_id + int (length sentences) - 1}" by auto
  have C: "?ids = {start_id .. start_id + int (length sentences) - 1}"
    if all: "\<forall>s \<in> set sentences. get_lemmas_with_surface tagger (fst s) \<noteq> []"
  proof
    show "?ids \<subseteq> {start_id .. start_id + int (length sentences) - 1}" by (rule B)
    show "{start_id .. start_id + int (length sentences) - 1} \<subseteq> ?ids"
    proof
      fix k assume "k \<in> {start_id .. start_id + int (length sentences) - 1}"
      then have k: "start_id \<le> k" "k < start_id + int (length sentences)" by auto
      define i where "i = nat (k - start_id)"
      with k have "k = start_id + int i" "i < length sentences" by auto
      moreover from this all have "get_lemmas_with_surface tagger (fst (sentences ! i)) \<noteq> []"
        by simp
      ultimately show "k \<in> ?ids" by blast
    qed
  qed
  have D: "sorted (map snd ?out)"
    by (simp add: build_word_index_entries sorted_entries_from)
  from A B C D show ?thesis by simp
qed

text \<open>
  Claim C5 as stated fails: a sentence whose text yields no word (here the empty text,
  which the segmenter cuts into no node) contributes no pair, and its id is missing.
\<close>

theorem build_word_index_ids_counterexample:
  "snd ` set (build_word_index id char_tagger [([], [0x61])] 1)
     \<noteq> {1 .. 1 + int (length [([] :: ustring, [0x61 :: nat])]) - 1}"
  by (simp add: build_word_index_def get_lemmas_with_surface_def normalize_text_def
      z2h_def h2z_def char_tagger_def)

text \<open>
  Claim C6: the index builder emits no pair twice, and every word of the set extracted
  from sentence \<open>i\<close>, whether it came from a surface form, a lemma or both, occurs in
  exactly one emitted pair with the id \<open>K + i\<close>.
\<close>

theorem build_word_index_dedup:
  assumes "iterates_sets iter"
  shows "distinct (build_word_index iter tagger sentences start_id)
       \<and> (\<forall>i < length sentences.
            \<forall>w \<in> set (get_lemmas_with_surface tagger (fst (sentences ! i))).
              count_list (build_word_index iter tagger sentences start_id)
                (w, start_id + int i) = 1)"
proof -
  let ?out = "build_word_index iter tagger sentences start_id"
  have d: "distinct ?out"
    using assms by (simp add: build_word_index_entries distinct_entries_from)
  have S: "set ?out = {(w, start_id + int i) | w i. i < length sentences
              \<and> w \<in> set (get_lemmas_with_surface tagger (fst (sentences ! i)))}"
    using assms by (simp add: build_word_index_entries set_entries_from)
  have "count_list ?out (w, start_id + int i) = 1"
    if "i < length sentences" "w \<in> set (get_lemmas_with_surface tagger (fst (sentences ! i)))"
    for i w
  proof -
    from that have "(w, start_id + int i) \<in> set ?out" unfolding S by blast
    with d show ?thesis by (rule count_list_distinct)
  qed
  with d show ?thesis by blast
qed

lemma set_rebuild_loop:
  "iterates_sets iter \<Longrightarrow>
   set (rebuild_loop iter tagger rs acc) =
     set acc \<union> {(w, sid) | w sid ja. (sid, ja) \<in> set rs \<and> w \<in> set (get_lemmas_with_surface tagger ja)}"
proof (induction rs arbitrary: acc)
  case Nil
  then show ?case by simp
next
  case (Cons r rs)
  obtain sid ja where r: "r = (sid, ja)" by (cases r)
  show ?case using Cons.prems
    by (auto simp: r Let_def Cons.IH [OF Cons.prems] iterates_sets_set)
qed

text \<open>
  Claim C9: when the rows \<open>(id, japanese)\<close> read back from the store are the texts of
  the sentences with the sequential ids given at build time (in any order), the rebuild
  yields the same set of pairs as the build, whatever the iteration orders of the two runs.
\<close>

theorem rebuild_matches_build:
  assumes "iterates_sets iter" and "iterates_sets iter'"
    and "set results =
           set (zip (map (\<lambda>i. start_id + int i) [0..<length sentences]) (map fst sentences))"
  shows "set (rebuild_word_index iter' tagger results)
           = set (build_word_index iter tagger sentences start_id)"
proof -
  have Z: "set results = {(start_id + int i, fst (sentences ! i)) | i. i < length sentences}"
  proof (intro set_eqI iffI)
    fix p assume "p \<in> set results"
    then obtain j where "j < length sentences"
      "p = (map (\<lambda>i. start_id + int i) [0..<length sentences] ! j, map fst sentences ! j)"
      by (auto simp: assms(3) set_zip)
    then show "p \<in> {(start_id + int i, fst (sentences ! i)) | i. i < length sentences}"
      by auto
  next
    fix p assume "p \<in> {(start_id + int i, fst (sentences ! i)) | i. i < length sentences}"
    then obtain i where i: "i < length sentences"
      and p: "p = (start_id + int i, fst (sentences ! i))" by blast
    from i p
    have "p = (map (\<lambda>i. start_id + int i) [0..<length sentences] ! i, map fst sentences ! i)"
      by simp
    with i show "p \<in> set results"
      unfolding assms(3) set_zip by (auto intro!: exI [of _ i])
  qed
  have "set (rebuild_word_index iter' tagger results)
      = {(w, sid) | w sid ja. (sid, ja) \<in> set results
           \<and> w \<in> set (get_lemmas_with_surface tagger ja)}"
    using assms(2) by (simp add: rebuild_word_index_def set_rebuild_loop)
  also have "\<dots> = {(w, start_id + int i) | w i. i < length sentences
              \<and> w \<in> set (get_lemmas_with_surface tagger (fst (sentences ! i)))}"
    unfolding Z by blast
  also have "\<dots> = set (build_word_index iter tagger sentences start_id)"
    using assms(1) by (simp add: build_word_index_entries set_entries_from)
  finally show ?thesis .
qed

subsection \<open>Instances\<close>

text \<open>
  The theorem for C5 at two sentences that each yield a word, numbered from 5: the ids
  are 5 and 6.
\<close>

theorem build_word_index_ids_witness:
  "iterates_sets id
   \<and> get_lemmas_with_surface char_tagger [0x3042, 0x3044] \<noteq> []
   \<and> get_lemmas_with_surface char_tagger [0x3046] \<noteq> []
   \<and> snd ` set (build_word_index id char_tagger
                   [([0x3042, 0x3044], [0x61]), ([0x3046], [0x62])] 5) = {5 .. 6}"
proof -
  have it: "iterates_sets id" by (simp add: iterates_sets_def)
  have a: "get_lemmas_with_surface char_tagger [0x3042, 0x3044] = [[0x3042], [0x3044]]"
    by (simp add: get_lemmas_with_surface_def normalize_text_def z2h_def z2h_char_def h2z_def
        h2z_char_def H2Z_K_def H2Z_DAKUTEN_def char_tagger_def char_node_def set_add_def)
  have b: "get_lemmas_with_surface char_tagger [0x3046] = [[0x3046]]"
    by (simp add: get_lemmas_with_surface_def normalize_text_def z2h_def z2h_char_def h2z_def
        h2z_char_def H2Z_K_def char_tagger_def char_node_def set_add_def)
  have "snd ` set (build_word_index id char_tagger
                     [([0x3042, 0x3044], [0x61]), ([0x3046], [0x62])] 5) = {5 .. 6}"
    using build_word_index_ids [OF it, of char_tagger
        "[([0x3042, 0x3044], [0x61]), ([0x3046], [0x62])]" 5,
        THEN conjunct2, THEN conjunct2, THEN conjunct1]
    by (simp add: a b)
  with it a b show ?thesis by simp
qed

text \<open>
  The theorem for C6 at a sentence whose only node has its surface as its lemma: the word
  is indexed once.
\<close>

theorem build_word_index_dedup_witness:
  "iterates_sets id
   \<and> get_lemmas_with_surface sample_tagger [0x98DF, 0x3079, 0x308B] = [[0x98DF, 0x3079, 0x308B]]
   \<and> count_list (build_word_index id sample_tagger
                    [([0x98DF, 0x3079, 0x308B], [0x65, 0x61, 0x74])] 7)
        ([0x98DF, 0x3079, 0x308B], 7) = 1"
proof -
  have it: "iterates_sets id" by (simp add: iterates_sets_def)
  have a: "get_lemmas_with_surface sample_tagger [0x98DF, 0x3079, 0x308B]
             = [[0x98DF, 0x3079, 0x308B]]"
    by (simp add: get_lemmas_with_surface_def normalize_text_def z2h_def z2h_char_def h2z_def
        h2z_char_def H2Z_K_def H2Z_DAKUTEN_def sample_tagger_def lemma_node_def set_add_def
        usable_lemma_def)
  show ?thesis
    using build_word_index_dedup [OF it, of sample_tagger
        "[([0x98DF, 0x3079, 0x308B], [0x65, 0x61, 0x74])]" 7] it
    by (simp add: a)
qed

text \<open>
  The theorem for C9 at two sentences read back in the other order and iterated in the
  other direction.
\<close>

theorem rebuild_matches_build_witness:
  "iterates_sets id \<and> iterates_sets rev
   \<and> set (rebuild_word_index rev char_tagger [(6, [0x3046]), (5, [0x3042, 0x3044])])
       = set (build_word_index id char_tagger
                [([0x3042, 0x3044], [0x61]), ([0x3046], [0x62])] 5)"
proof -
  have it: "iterates_sets id" by (simp add: iterates_sets_def)
  have it': "iterates_sets rev" by (simp add: iterates_sets_def)
  have z: "set [(6 :: int, [0x3046 :: nat]), (5, [0x3042, 0x3044])]
      = set (zip (map (\<lambda>i. 5 + int i)
                   [0..<length [([0x3042, 0x3044 :: nat], [0x61 :: nat]), ([0x3046], [0x62])]])
                 (map fst [([0x3042, 0x3044], [0x61]), ([0x3046], [0x62])]))"
    by (simp add: upt_rec insert_commute)
  show ?thesis
    using rebuild_matches_build [OF it it' z, of char_tagger] it it' by simp
qed

section \<open>The tokenizer and the store\<close>

subsection \<open>Normalisation before segmentation\<close>

lemma extraction_normalizes:
  "tokenize tagger (normalize_text w) = tokenize tagger w
   \<and> get_lemmas tagger (normalize_text w) = get_lemmas tagger w
   \<and> get_lemmas_with_surface tagger (normalize_text w) = get_lemmas_with_surface tagger w"
  by (simp add: tokenize_def get_lemmas_def get_lemmas_with_surface_def normalize_text_idem)

text \<open>A segmenter that raises yields empty results in all four methods.\<close>

lemma segmentation_failure_absorbed:
  "tokenize failing_tagger w = [] \<and> get_lemmas failing_tagger w = []
   \<and> get_lemmas_with_surface failing_tagger w = [] \<and> analyze_word failing_tagger w = None"
  by (simp add: tokenize_def get_lemmas_def get_lemmas_with_surface_def analyze_word_def
      failing_tagger_def)

text \<open>
  Claim C7: \<open>tokenize\<close>, \<open>get_lemmas\<close> and \<open>get_lemmas_with_surface\<close> normalize
  first (\<open>extraction_normalizes\<close>); \<open>analyze_word\<close> hands its argument to the
  segmenter as it is. On the full-width letter U+FF21 its result differs from the result
  on the normalized word.
\<close>

theorem analyze_word_skips_normalize:
  "analyze_word char_tagger [0xFF21] \<noteq> analyze_word char_tagger (normalize_text [0xFF21])"
  by (simp add: analyze_word_def char_tagger_def char_node_def normalize_text_def z2h_def
      z2h_char_def h2z_def h2z_char_def H2Z_K_def)

subsection \<open>The queries of the store\<close>

lemma rows_comprehension: "[(jp, en). (jp, en) \<leftarrow> results] = results"
  by (induction results) auto

lemma search_by_word_unfold:
  "search_by_word db word limit =
     (case execute_join db (\<lambda>w. w = word) limit of
        Inr results \<Rightarrow> Inr results | Inl e \<Rightarrow> Inl AttributeError)"
  by (simp add: search_by_word_def logger_erorr_def rows_comprehension split: sum.splits)

lemma search_by_partial_word_unfold:
  "search_by_partial_word db word limit =
     (case execute_join db (like_match (word @ [0x25])) limit of
        Inr results \<Rightarrow> Inr results | Inl e \<Rightarrow> Inl AttributeError)"
  by (simp add: search_by_partial_word_def logger_erorr_def rows_comprehension split: sum.splits)

lemma execute_join_length: "execute_join db matches limit = Inr rs \<Longrightarrow> length rs \<le> nat limit"
  by (auto simp: execute_join_def split: if_splits)

lemma search_by_word_length: "search_by_word db word limit = Inr rs \<Longrightarrow> length rs \<le> nat limit"
  by (auto simp: search_by_word_unfold split: sum.splits dest: execute_join_length)

lemma search_by_partial_word_length:
  "search_by_partial_word db word limit = Inr rs \<Longrightarrow> length rs \<le> nat limit"
  by (auto simp: search_by_partial_word_unfold split: sum.splits dest: execute_join_length)

lemma search_by_word_backend_failure:
  "\<not> available db \<Longrightarrow> search_by_word db word limit = Inl AttributeError"
  by (simp add: search_by_word_unfold execute_join_def)

lemma search_by_partial_word_backend_failure:
  "\<not> available db \<Longrightarrow> search_by_partial_word db word limit = Inl AttributeError"
  by (simp add: search_by_partial_word_unfold execute_join_def)

lemma get_random_sentence_backend_failure:
  "\<not> available db \<Longrightarrow> get_random_sentence db pick = (None, None)"
  by (simp add: get_random_sentence_def execute_random_def logger_error_def)

lemma get_random_sentence_empty:
  "sentences_table db = [] \<Longrightarrow> get_random_sentence db pick = (None, None)"
  by (simp add: get_random_sentence_def execute_random_def logger_error_def)

lemma get_sentence_count_backend_failure: "\<not> available db \<Longrightarrow> get_sentence_count db = 0"
  by (simp add: get_sentence_count_def execute_count_def)

text \<open>
  Claim C2: with a backend that raises, \<open>get_random_sentence\<close> returns
  \<open>(None, None)\<close> and \<open>get_sentence_count\<close> returns 0, but the handlers of
  \<open>search_by_word\<close> and \<open>search_by_partial_word\<close> raise \<open>AttributeError\<close>
  before they reach \<open>return []\<close>.
\<close>

theorem search_backend_failure_propagates:
  "search_by_word down_db [0x98DF, 0x3079, 0x308B] 5 = Inl AttributeError
   \<and> search_by_partial_word down_db [0x98DF, 0x3079, 0x308B] 5 = Inl AttributeError
   \<and> get_random_sentence down_db 0 = (None, None)
   \<and> get_sentence_count down_db = 0"
  by (simp add: search_by_word_def search_by_partial_word_def execute_join_def logger_erorr_def
      get_random_sentence_def execute_random_def logger_error_def get_sentence_count_def
      execute_count_def down_db_def)

text \<open>
  For a word without the characters U+0025, U+005F and U+005C the pattern of
  \<open>search_by_partial_word\<close> matches exactly the index words that start with the word.
\<close>

lemma like_match_percent: "like_match [0x25] s"
  by (induction s) simp_all

lemma like_match_literal_prefix:
  "0x25 \<notin> set word \<Longrightarrow> 0x5F \<notin> set word \<Longrightarrow> 0x5C \<notin> set word \<Longrightarrow>
   like_match (word @ [0x25]) s = prefix word s"
proof (induction word arbitrary: s)
  case Nil
  then show ?case by (simp add: like_match_percent)
next
  case (Cons p ps)
  then show ?case by (cases s) auto
qed

section \<open>The corpus reader\<close>

lemma read_rows_step:
  "read_rows limit line_num (row # rest) acc =
     (if (case limit of None \<Rightarrow> False | Some l \<Rightarrow> l \<noteq> 0 \<and> line_num > l) then acc
      else read_rows limit (line_num + 1) rest
             (if row_skipped row then acc else acc @ [row_pair row]))"
  by (auto simp: row_skipped_def row_pair_def Let_def)

lemma read_rows_unlimited:
  "limit = None \<or> limit = Some 0 \<Longrightarrow>
   read_rows limit line_num rows acc
     = acc @ map row_pair (filter (\<lambda>row. \<not> row_skipped row) rows)"
proof (induction rows arbitrary: line_num acc)
  case Nil
  then show ?case by simp
next
  case (Cons row rest)
  from Cons.prems show ?case
    by (auto simp only: read_rows_step Cons.IH [OF Cons.prems] split: option.splits) auto
qed

lemma read_rows_limited:
  "l \<noteq> 0 \<Longrightarrow>
   read_rows (Some l) line_num rows acc
     = acc @ map row_pair (filter (\<lambda>row. \<not> row_skipped row) (take (nat (l - line_num + 1)) rows))"
proof (induction rows arbitrary: line_num acc)
  case Nil
  then show ?case by simp
next
  case (Cons row rest)
  show ?case
  proof (cases "line_num > l")
    case True
    with Cons.prems show ?thesis by (simp add: read_rows_step)
  next
    case False
    then have n: "nat (l - line_num + 1) = Suc (nat (l - (line_num + 1) + 1))" by simp
    from False Cons.prems show ?thesis
      by (simp only: read_rows_step n Cons.IH [OF Cons.prems]) auto
  qed
qed

text \<open>
  Claim C8, as amended: of the rows that are read (all of them without a limit or with
  the limit 0, else the first \<open>limit\<close> rows), a row is skipped if and only if it has
  fewer than 3 fields, or field 1 or field 2 is empty after trimming, or contains a newline
  or a tab after trimming, or is longer than 300 characters after trimming; every other
  row is accepted as the pair of the trimmed field 2 (Japanese) and the trimmed field 1
  (English), in input order.
\<close>

theorem read_jesc_file_filter:
  "read_jesc_file (Inr rows) limit =
     Inr (map (\<lambda>row. (strip (row ! 2), strip (row ! 1)))
            (filter (\<lambda>row. \<not> (length row < 3
                  \<or> strip (row ! 2) = [] \<or> strip (row ! 1) = []
                  \<or> 0x0A \<in> set (strip (row ! 2)) \<or> 0x09 \<in> set (strip (row ! 2))
                  \<or> 0x0A \<in> set (strip (row ! 1)) \<or> 0x09 \<in> set (strip (row ! 1))
                  \<or> length (strip (row ! 2)) > 300 \<or> length (strip (row ! 1)) > 300))
               (case limit of
                  None \<Rightarrow> rows
                | Some l \<Rightarrow> if l = 0 then rows else take (nat l) rows)))"
proof -
  have "read_rows limit 1 rows [] =
          map row_pair (filter (\<lambda>row. \<not> row_skipped row) (rows_read limit rows))"
  proof (cases "limit = None \<or> limit = Some 0")
    case True
    then show ?thesis by (auto simp: read_rows_unlimited rows_read_def)
  next
    case False
    then obtain l where "limit = Some l" "l \<noteq> 0" by (cases limit) auto
    then show ?thesis by (simp add: read_rows_limited rows_read_def)
  qed
  then show ?thesis
    by (simp add: read_jesc_file_def rows_read_def row_skipped_def [abs_def] row_pair_def [abs_def])
qed

lemma dropWhile_all_then: "\<forall>x \<in> set xs. P x \<Longrightarrow> \<not> P c \<Longrightarrow> dropWhile P (xs @ c # ys) = c # ys"
  by (induction xs) auto

lemma strip_padded: "\<not> isspace c \<Longrightarrow> strip (c # replicate n 0x20) = [c]"
proof -
  assume c: "\<not> isspace c"
  have sp: "isspace 0x20" by (simp add: isspace_def)
  have "rev (c # replicate n 0x20) = replicate n 0x20 @ [c]" by simp
  moreover have "dropWhile isspace (replicate n 0x20 @ [c]) = [c]"
    using c sp by (intro dropWhile_all_then) auto
  ultimately show ?thesis using c by (simp add: strip_def)
qed

text \<open>
  Claim C8 as stated fails: a row whose English field has 301 characters, the letter
  U+0061 followed by 300 spaces, exceeds 300 characters and is accepted, because the
  length is taken after trimming.
\<close>

theorem read_jesc_file_counterexample:
  "300 < length ([[0x31], 0x61 # replicate 300 0x20, [0x3042]] ! 1)
   \<and> read_jesc_file (Inr [[[0x31], 0x61 # replicate 300 0x20, [0x3042]]]) None
       = Inr [([0x3042], [0x61])]"
proof -
  have a: "strip (0x61 # replicate 300 0x20) = [0x61]"
    by (rule strip_padded) (simp add: isspace_def)
  have b: "strip [0x3042] = [0x3042]"
    by (simp add: strip_def isspace_def)
  show ?thesis
    by (simp add: read_jesc_file_def Let_def a b)
qed

text \<open>
  The theorem for C8 at four rows with the limit 3: the first is accepted with its fields
  trimmed, the second has two fields, the third has a tab inside its English field, and
  the fourth is not read.
\<close>

theorem read_jesc_file_filter_witness:
  "read_jesc_file
     (Inr [[[0x31], [0x20, 0x65, 0x61, 0x74], [0x98DF, 0x3079, 0x308B, 0x0A]],
           [[0x32], [0x65, 0x61, 0x74]],
           [[0x33], [0x61, 0x09, 0x62], [0x3042]],
           [[0x34], [0x68, 0x69], [0x3042]]]) (Some 3)
     = Inr [([0x98DF, 0x3079, 0x308B], [0x65, 0x61, 0x74])]"
proof -
  have s: "strip [0x20, 0x65, 0x61, 0x74] = [0x65, 0x61, 0x74]"
    "strip [0x98DF, 0x3079, 0x308B, 0x0A] = [0x98DF, 0x3079, 0x308B]"
    "strip [0x61, 0x09, 0x62] = [0x61, 0x09, 0x62]"
    "strip [0x3042] = [0x3042]"
    by (simp_all add: strip_def isspace_def)
  show ?thesis
    by (simp add: read_jesc_file_filter s)
qed

section \<open>The search command\<close>

lemma partial_step_unfold:
  "partial_step db nw L (log, r) =
     (if r = Inr [] then (log @ [SearchByPartialWord nw L], search_by_partial_word db nw L)
      else (log, r))"
  by (simp add: partial_step_def split: sum.splits list.splits)

lemma lemma_step_unfold:
  "lemma_step iter tagger db nw L (log, r) =
     (if r = Inr [] then
        (if get_lemmas tagger nw \<noteq> [] then
           (case iter (get_lemmas tagger nw) of
              lemma0 # rest \<Rightarrow>
                (log @ [GetLemmas nw, SearchByWord lemma0 L], search_by_word db lemma0 L)
            | [] \<Rightarrow> (log @ [GetLemmas nw], Inl IndexError))
         else (log @ [GetLemmas nw], Inr []))
      else (log, r))"
  by (simp add: lemma_step_def Let_def split: sum.splits list.splits)

lemma sentence_command_unfold:
  "sentence_command iter tagger db word limit0 =
     lemma_step iter tagger db (normalize_text word) (max 1 (min limit0 10))
       (partial_step db (normalize_text word) (max 1 (min limit0 10))
          ([SearchByWord (normalize_text word) (max 1 (min limit0 10))],
           search_by_word db (normalize_text word) (max 1 (min limit0 10))))"
  by (simp add: sentence_command_def exact_step_def Let_def)

lemma iter_nonempty:
  assumes "iterates_sets iter" and "s \<noteq> []"
  obtains l rest where "iter s = l # rest" and "l \<in> set s"
proof -
  from assms have "iter s \<noteq> []"
    using iterates_sets_length [of iter s] by auto
  then obtain l rest where e: "iter s = l # rest" by (cases "iter s") auto
  then have "l \<in> set (iter s)" by simp
  with assms(1) have "l \<in> set s" by (simp add: iterates_sets_set)
  with e show ?thesis by (rule that)
qed

text \<open>
  Claim C1: the search makes the exact lookup on the normalized word first. It makes the
  prefix lookup only if the exact lookup returned the empty list, and it runs the lemma
  extractor on the query only if the prefix lookup returned the empty list as well; when
  the set of lemmas is not empty, one of its members is looked up exactly. The log of the
  calls shows that no later tier runs once a tier has returned a result that is not the
  empty list (a list of rows, or an exception that leaves the command).
\<close>

theorem sentence_command_tiers:
  assumes "iterates_sets iter"
  shows
   "let limit = max 1 (min limit0 10);
        normalized_word = normalize_text word;
        r1 = search_by_word db normalized_word limit;
        r2 = search_by_partial_word db normalized_word limit;
        lemmas = get_lemmas tagger normalized_word
    in (r1 \<noteq> Inr [] \<longrightarrow>
          sentence_command iter tagger db word limit0
            = ([SearchByWord normalized_word limit], r1))
     \<and> (r1 = Inr [] \<and> r2 \<noteq> Inr [] \<longrightarrow>
          sentence_command iter tagger db word limit0
            = ([SearchByWord normalized_word limit,
                SearchByPartialWord normalized_word limit], r2))
     \<and> (r1 = Inr [] \<and> r2 = Inr [] \<and> lemmas = [] \<longrightarrow>
          sentence_command iter tagger db word limit0
            = ([SearchByWord normalized_word limit,
                SearchByPartialWord normalized_word limit,
                GetLemmas normalized_word], Inr []))
     \<and> (r1 = Inr [] \<and> r2 = Inr [] \<and> lemmas \<noteq> [] \<longrightarrow>
          (\<exists>l \<in> set lemmas.
             sentence_command iter tagger db word limit0
               = ([SearchByWord normalized_word limit,
                   SearchByPartialWord normalized_word limit,
                   GetLemmas normalized_word,
                   SearchByWord l limit], search_by_word db l limit)))"
proof -
  define L where "L = max 1 (min limit0 10)"
  define nw where "nw = normalize_text word"
  define r1 where "r1 = search_by_word db nw L"
  define r2 where "r2 = search_by_partial_word db nw L"
  define ls where "ls = get_lemmas tagger nw"
  note U = sentence_command_unfold [of iter tagger db word limit0, folded L_def nw_def, folded r1_def]
  have A: "sentence_command iter tagger db word limit0 = ([SearchByWord nw L], r1)"
    if "r1 \<noteq> Inr []"
    using that by (simp add: U partial_step_unfold lemma_step_unfold)
  have B: "sentence_command iter tagger db word limit0
             = ([SearchByWord nw L, SearchByPartialWord nw L], r2)"
    if "r1 = Inr []" "r2 \<noteq> Inr []"
    using that by (simp add: U partial_step_unfold lemma_step_unfold r2_def [symmetric])
  have C: "sentence_command iter tagger db word limit0
             = ([SearchByWord nw L, SearchByPartialWord nw L, GetLemmas nw], Inr [])"
    if "r1 = Inr []" "r2 = Inr []" "ls = []"
    using that
    by (simp add: U partial_step_unfold lemma_step_unfold r2_def [symmetric] ls_def [symmetric])
  have D: "\<exists>l \<in> set ls. sentence_command iter tagger db word limit0
             = ([SearchByWord nw L, SearchByPartialWord nw L, GetLemmas nw, SearchByWord l L],
                search_by_word db l L)"
    if "r1 = Inr []" "r2 = Inr []" "ls \<noteq> []"
  proof -
    from assms that(3) obtain l rest where i: "iter ls = l # rest" and l: "l \<in> set ls"
      by (rule iter_nonempty)
    from that i have "sentence_command iter tagger db word limit0
             = ([SearchByWord nw L, SearchByPartialWord nw L, GetLemmas nw, SearchByWord l L],
                search_by_word db l L)"
      by (simp add: U partial_step_unfold lemma_step_unfold r2_def [symmetric]
          ls_def [symmetric])
    with l show ?thesis by blast
  qed
  from A B C D show ?thesis
    unfolding Let_def L_def [symmetric] nw_def [symmetric] r1_def [symmetric]
      r2_def [symmetric] ls_def [symmetric]
    by blast
qed

lemma sentence_command_shapes:
  fixes limit0 :: int
  defines "L \<equiv> max 1 (min limit0 10)"
  shows "\<exists>l. sentence_command iter tagger db word limit0 \<in>
     {([SearchByWord (normalize_text word) L], search_by_word db (normalize_text word) L),
      ([SearchByWord (normalize_text word) L, SearchByPartialWord (normalize_text word) L],
        search_by_partial_word db (normalize_text word) L),
      ([SearchByWord (normalize_text word) L, SearchByPartialWord (normalize_text word) L,
        GetLemmas (normalize_text word)], Inr []),
      ([SearchByWord (normalize_text word) L, SearchByPartialWord (normalize_text word) L,
        GetLemmas (normalize_text word)], Inl IndexError),
      ([SearchByWord (normalize_text word) L, SearchByPartialWord (normalize_text word) L,
        GetLemmas (normalize_text word), SearchByWord l L], search_by_word db l L)}"
  unfolding L_def
  by (cases "iter (get_lemmas tagger (normalize_text word))")
     (auto simp: sentence_command_unfold partial_step_unfold lemma_step_unfold)

text \<open>
  Claim C10: the limit that reaches the store is \<open>max(1, min(limit, 10))\<close>, which
  lies between 1 and 10, is 1 for a requested limit of 0 or less and 10 for a requested
  limit above 10; every lookup of the command carries it, and the list of results never
  has more than 10 entries.
\<close>

theorem sentence_command_limit:
  "let limit = max 1 (min limit0 10);
       out = sentence_command iter tagger db word limit0
   in 1 \<le> limit \<and> limit \<le> 10
      \<and> (limit0 \<le> 0 \<longrightarrow> limit = 1)
      \<and> (10 < limit0 \<longrightarrow> limit = 10)
      \<and> (\<forall>c \<in> set (fst out). \<forall>w l.
            c = SearchByWord w l \<or> c = SearchByPartialWord w l \<longrightarrow> l = limit)
      \<and> (\<forall>rs. snd out = Inr rs \<longrightarrow> length rs \<le> 10)"
proof -
  define L where "L = max 1 (min limit0 10)"
  define out where "out = sentence_command iter tagger db word limit0"
  have L: "1 \<le> L" "L \<le> 10" "limit0 \<le> 0 \<longrightarrow> L = 1" "10 < limit0 \<longrightarrow> L = 10"
    by (auto simp: L_def)
  from sentence_command_shapes [of iter tagger db word limit0]
  obtain l where sh: "out \<in>
     {([SearchByWord (normalize_text word) L], search_by_word db (normalize_text word) L),
      ([SearchByWord (normalize_text word) L, SearchByPartialWord (normalize_text word) L],
        search_by_partial_word db (normalize_text word) L),
      ([SearchByWord (normalize_text word) L, SearchByPartialWord (normalize_text word) L,
        GetLemmas (normalize_text word)], Inr []),
      ([SearchByWord (normalize_text word) L, SearchByPartialWord (normalize_text word) L,
        GetLemmas (normalize_text word)], Inl IndexError),
      ([SearchByWord (normalize_text word) L, SearchByPartialWord (normalize_text word) L,
        GetLemmas (normalize_text word), SearchByWord l L], search_by_word db l L)}"
    unfolding out_def L_def by blast
  have calls: "\<forall>c \<in> set (fst out). \<forall>w l.
      c = SearchByWord w l \<or> c = SearchByPartialWord w l \<longrightarrow> l = L"
    using sh by auto
  have len: "length rs \<le> 10" if "snd out = Inr rs" for rs
  proof -
    from sh that have "search_by_word db (normalize_text word) L = Inr rs
        \<or> search_by_partial_word db (normalize_text word) L = Inr rs
        \<or> rs = [] \<or> search_by_word db l L = Inr rs"
      by auto
    then have "length rs \<le> nat L"
      by (auto dest: search_by_word_length search_by_partial_word_length)
    with L(2) show ?thesis by simp
  qed
  from L calls len show ?thesis
    unfolding Let_def L_def [symmetric] out_def [symmetric] by blast
qed

subsection \<open>Instances of the search\<close>

lemma normalize_taberu: "normalize_text [0x98DF, 0x3079, 0x308B] = [0x98DF, 0x3079, 0x308B]"
  by (simp add: normalize_text_def z2h_def z2h_char_def h2z_def h2z_char_def H2Z_K_def
      H2Z_DAKUTEN_def)

lemma normalize_tabeta: "normalize_text [0x98DF, 0x3079, 0x305F] = [0x98DF, 0x3079, 0x305F]"
  by (simp add: normalize_text_def z2h_def z2h_char_def h2z_def h2z_char_def H2Z_K_def
      H2Z_DAKUTEN_def)

lemma sample_exact_taberu:
  "search_by_word sample_db [0x98DF, 0x3079, 0x308B] limit =
     (if limit < 0 then Inl AttributeError
      else Inr (take (nat limit)
        [([0x79C1, 0x306F, 0x5BFF, 0x53F8, 0x3092, 0x98DF, 0x3079, 0x307E, 0x3059],
          [0x49, 0x20, 0x65, 0x61, 0x74, 0x20, 0x73, 0x75, 0x73, 0x68, 0x69])]))"
  by (simp add: search_by_word_unfold execute_join_def sample_db_def)

lemma sample_exact_tabeta: "search_by_word sample_db [0x98DF, 0x3079, 0x305F] 5 = Inr []"
  by (simp add: search_by_word_unfold execute_join_def sample_db_def)

lemma sample_partial_tabeta:
  "search_by_partial_word sample_db [0x98DF, 0x3079, 0x305F] 5 = Inr []"
  by (simp add: search_by_partial_word_unfold execute_join_def sample_db_def)

lemma sample_lemmas_tabeta:
  "get_lemmas sample_tagger [0x98DF, 0x3079, 0x305F] = [[0x98DF, 0x3079, 0x308B], [0x305F]]"
  by (simp add: get_lemmas_def normalize_tabeta sample_tagger_def lemma_node_def
      usable_lemma_def set_add_def)

text \<open>
  The theorem for C1 at the inflected query of the spec's example: both lookups on the
  query are empty, the first lemma of the query is looked up, and the sentence is found.
\<close>

theorem sentence_command_tiers_witness:
  "iterates_sets id
   \<and> search_by_word sample_db [0x98DF, 0x3079, 0x305F] 5 = Inr []
   \<and> search_by_partial_word sample_db [0x98DF, 0x3079, 0x305F] 5 = Inr []
   \<and> sentence_command id sample_tagger sample_db [0x98DF, 0x3079, 0x305F] 5
       = ([SearchByWord [0x98DF, 0x3079, 0x305F] 5,
           SearchByPartialWord [0x98DF, 0x3079, 0x305F] 5,
           GetLemmas [0x98DF, 0x3079, 0x305F],
           SearchByWord [0x98DF, 0x3079, 0x308B] 5],
          Inr [([0x79C1, 0x306F, 0x5BFF, 0x53F8, 0x3092, 0x98DF, 0x3079, 0x307E, 0x3059],
                [0x49, 0x20, 0x65, 0x61, 0x74, 0x20, 0x73, 0x75, 0x73, 0x68, 0x69])])"
proof -
  have it: "iterates_sets id" by (simp add: iterates_sets_def)
  from sentence_command_tiers [OF it, of 5 "[0x98DF, 0x3079, 0x305F]" sample_db sample_tagger]
  obtain l where l: "l \<in> set [[0x98DF, 0x3079, 0x308B], [0x305F]]"
    and c: "sentence_command id sample_tagger sample_db [0x98DF, 0x3079, 0x305F] 5
       = ([SearchByWord [0x98DF, 0x3079, 0x305F] 5,
           SearchByPartialWord [0x98DF, 0x3079, 0x305F] 5,
           GetLemmas [0x98DF, 0x3079, 0x305F],
           SearchByWord l 5], search_by_word sample_db l 5)"
    by (auto simp: Let_def normalize_tabeta sample_exact_tabeta sample_partial_tabeta
        sample_lemmas_tabeta)
  have "sentence_command id sample_tagger sample_db [0x98DF, 0x3079, 0x305F] 5
       = ([SearchByWord [0x98DF, 0x3079, 0x305F] 5,
           SearchByPartialWord [0x98DF, 0x3079, 0x305F] 5,
           GetLemmas [0x98DF, 0x3079, 0x305F],
           SearchByWord [0x98DF, 0x3079, 0x308B] 5],
          search_by_word sample_db [0x98DF, 0x3079, 0x308B] 5)"
    by (simp add: sentence_command_unfold partial_step_unfold lemma_step_unfold
        normalize_tabeta sample_exact_tabeta sample_partial_tabeta sample_lemmas_tabeta)
  with it c show ?thesis
    by (simp add: sample_exact_tabeta sample_partial_tabeta sample_exact_taberu)
qed

text \<open>
  The theorem for C10 at the requested limit 0: the lookup runs with the limit 1 and
  returns one sentence.
\<close>

theorem sentence_command_limit_witness:
  "sentence_command id sample_tagger sample_db [0x98DF, 0x3079, 0x308B] 0
     = ([SearchByWord [0x98DF, 0x3079, 0x308B] 1],
        Inr [([0x79C1, 0x306F, 0x5BFF, 0x53F8, 0x3092, 0x98DF, 0x3079, 0x307E, 0x3059],
              [0x49, 0x20, 0x65, 0x61, 0x74, 0x20, 0x73, 0x75, 0x73, 0x68, 0x69])])
   \<and> length [([0x79C1, 0x306F, 0x5BFF, 0x53F8, 0x3092, 0x98DF, 0x3079, 0x307E, 0x3059 :: nat],
               [0x49, 0x20, 0x65, 0x61, 0x74, 0x20, 0x73, 0x75, 0x73, 0x68, 0x69 :: nat])] \<le> 10"
proof -
  have e: "sentence_command id sample_tagger sample_db [0x98DF, 0x3079, 0x308B] 0
     = ([SearchByWord [0x98DF, 0x3079, 0x308B] 1],
        Inr [([0x79C1, 0x306F, 0x5BFF, 0x53F8, 0x3092, 0x98DF, 0x3079, 0x307E, 0x3059],
              [0x49, 0x20, 0x65, 0x61, 0x74, 0x20, 0x73, 0x75, 0x73, 0x68, 0x69])])"
    by (simp add: sentence_command_unfold partial_step_unfold lemma_step_unfold
        normalize_taberu sample_exact_taberu)
  from sentence_command_limit [of 0 id sample_tagger sample_db "[0x98DF, 0x3079, 0x308B]"]
  have "\<forall>rs. snd (sentence_command id sample_tagger sample_db [0x98DF, 0x3079, 0x308B] 0)
           = Inr rs \<longrightarrow> length rs \<le> 10"
    by (simp add: Let_def)
  with e show ?thesis by simp
qed

end
